theory Spec2Isabelle
  imports Complex_Main
begin

section \<open>Data model of the stress-minimisation driver (lbeam.cpp)\<close>

text \<open>
  The driver is one function, \<open>main\<close>, whose optimisation loop calls the finite-element
  library, the sensitivity analysis and the level-set library. Those libraries are not
  part of the driver: what they hand back in one iteration is collected in the record
  \<open>engine_out\<close>, and the loop is modelled for an arbitrary sequence of such records, one per
  iteration. C++ \<open>double\<close> values are idealised as real numbers; a division whose result
  would not be a finite number leaves the model through the error value \<open>NonFinite\<close>, and
  an index outside a vector (undefined behaviour in C++) through \<open>OutOfRange\<close>.
\<close>

type_synonym coord = "real \<times> real"

record boundary_point =
  coord :: coord
  sensitivities :: "real list"

datatype error = OutOfRange | NonFinite

datatype log_line =
    Header
  | Row (row_iter: nat) (row_objective: real) (row_stress: real) (row_area: real)
        (row_change: real)

record optimise_args =
  opt_points :: "boundary_point list"
  opt_move_limit :: real
  length_x :: real
  length_y :: real
  opt_boundary_area :: real
  opt_mesh_area :: real
  opt_max_area :: real
  opt_reduced_move_limit :: real

text \<open>What the external engines return during one iteration of the loop.\<close>

record engine_out =
  discretise :: "nat \<Rightarrow> boundary_point list"
  lsm_areas :: "real list"
  boundary_area :: real
  compute_boundary_sensitivities ::
    "coord \<Rightarrow> real \<Rightarrow> nat \<Rightarrow> real \<Rightarrow> real list \<Rightarrow> real list"
  objective :: real
  von_mises_max :: real
  time_step :: real
  new_lambdas :: "real list"
  is_reinitialised :: bool

text \<open>What one iteration hands to the engines (the calls a test double would record).\<close>

record iter_calls =
  call_discretise :: nat
  call_solver_fractions :: "real list"
  call_constraint_distances :: "real list"
  call_optimise :: optimise_args
  call_reinitialise :: bool

record state =
  count_iter :: nat
  num_reinit :: real
  time :: real
  lambdas :: "real list"
  objective_values :: "real list"
  relative_difference :: real
  area_fractions :: "real list"
  boundary_sensitivities :: "real list"
  txt_file :: "log_line list"
  calls :: "iter_calls list"

section \<open>Compiled-in constants\<close>

definition num_elem_x :: nat where "num_elem_x = 100"
definition num_elem_y :: nat where "num_elem_y = 100"
definition least_sq_radius :: real where "least_sq_radius = 2.0"
definition sens_type :: nat where "sens_type = 1"
definition move_limit :: real where "move_limit = 0.5"
definition max_iter :: nat where "max_iter = 500"
definition max_area :: real where "max_area = 0.4"
definition p_norm :: real where "p_norm = 6"
definition reduced_move_limit :: real where "reduced_move_limit = 0.15"

text \<open>
  \<open>lsm_mesh.width\<close> and \<open>lsm_mesh.height\<close> are the first two arguments of the mesh
  constructor, \<open>num_elem_x\<close> and \<open>num_elem_y\<close>.
\<close>

definition lsm_width :: nat where "lsm_width = num_elem_x"
definition lsm_height :: nat where "lsm_height = num_elem_y"

definition mesh_area :: real where
  "mesh_area = real (lsm_width * lsm_height) - (real lsm_width * 3 / 5) ^ 2"

section \<open>The steps of one iteration\<close>

text \<open>Lines 338-344: the area fraction of every analysis element, clamped from below.\<close>

function assign_area_fractions :: "real list \<Rightarrow> nat \<Rightarrow> real list \<Rightarrow> error + real list" where
  "assign_area_fractions lsm i fea =
     (if i < length fea then
        (if i < length lsm then
           assign_area_fractions lsm (i + 1)
             (fea[i := (if lsm ! i < 0.000001 then 0.000001 else lsm ! i)])
         else Inl OutOfRange)
      else Inr fea)"
  by pat_completeness auto
termination
  by (relation "measure (\<lambda>(lsm, i, fea). length fea - i)") auto

declare assign_area_fractions.simps [simp del]

text \<open>
  Lines 362-376: the sensitivities of every boundary point. The call
  \<open>sens.ComputeBoundarySensitivities\<close> changes the engine's buffer
  \<open>boundary_sensitivities\<close>; how is the engine's matter, here the field
  \<open>compute_boundary_sensitivities\<close>.
\<close>

function assign_sensitivities ::
  "engine_out \<Rightarrow> nat \<Rightarrow> boundary_point list \<Rightarrow> real list \<Rightarrow>
   error + (boundary_point list \<times> real list)" where
  "assign_sensitivities e i points buf =
     (if i < length points then
        (let boundary_point = coord (points ! i);
             buf1 = compute_boundary_sensitivities e boundary_point least_sq_radius sens_type
                      p_norm buf
         in if i < length buf1 \<and> 1 < length (sensitivities (points ! i)) then
              assign_sensitivities e (i + 1)
                (points[i := (points ! i)\<lparr>sensitivities :=
                    (sensitivities (points ! i))[0 := - (buf1 ! i), 1 := - 1]\<rparr>])
                buf1
            else Inl OutOfRange)
      else Inr (points, buf))"
  by pat_completeness auto
termination
  by (relation "measure (\<lambda>(e, i, points, buf). length points - i)") auto

declare assign_sensitivities.simps [simp del]

text \<open>Lines 415-426: the reinitialisation counter; the flag says whether
  \<open>level_set.reinitialise()\<close> was called.\<close>

definition reinit_schedule :: "bool \<Rightarrow> real \<Rightarrow> bool \<times> real" where
  "reinit_schedule is_reinit n =
     (let (forced, n1) =
            (if \<not> is_reinit then (if n = 1 then (True, 0) else (False, n)) else (False, 0))
      in (forced, n1 + 1))"

text \<open>
  Lines 442-447: the window of the five previous objective values. The index
  \<open>count_iter - i - 1\<close> is unsigned and must stay inside the history; the quotient by an
  objective of zero is infinite or not a number in C++ and leaves the model.
\<close>

function window_loop :: "real \<Rightarrow> real list \<Rightarrow> nat \<Rightarrow> nat \<Rightarrow> real \<Rightarrow> error + real" where
  "window_loop objective_value_k objs count i rd =
     (if i \<le> 5 then
        (if i + 1 \<le> count \<and> count - i - 1 < length objs then
           (if objective_value_k = 0 then Inl NonFinite
            else window_loop objective_value_k objs count (i + 1)
                   (max rd \<bar>(objective_value_k - objs ! (count - i - 1)) / objective_value_k\<bar>))
         else Inl OutOfRange)
      else Inr rd)"
  by pat_completeness auto
termination
  by (relation "measure (\<lambda>(k, objs, count, i, rd). 6 - i)") auto

declare window_loop.simps [simp del]

text \<open>Lines 437-449.\<close>

definition convergence :: "real \<Rightarrow> real list \<Rightarrow> nat \<Rightarrow> real \<Rightarrow> error + real" where
  "convergence obj objs count rd =
     (if count > 5 then window_loop obj objs count 1 0 else Inr rd)"

text \<open>Line 465.\<close>

definition exit_test :: "real \<Rightarrow> real \<Rightarrow> bool" where
  "exit_test rd area \<longleftrightarrow> rd \<le> 0.0005 \<and> area \<le> 1.001 * max_area"

section \<open>The loop\<close>

text \<open>Lines 330-463: one pass through the body; the second component is the local \<open>area\<close>.\<close>

definition iteration :: "engine_out \<Rightarrow> state \<Rightarrow> error + (state \<times> real)" where
  "iteration e s =
     (let count = count_iter s + 1;
          nsens = length (lambdas s);
          points0 = discretise e nsens
      in case assign_area_fractions (lsm_areas e) 0 (area_fractions s) of
           Inl err \<Rightarrow> Inl err
         | Inr fractions \<Rightarrow>
       (case assign_sensitivities e 0 points0 (boundary_sensitivities s) of
           Inl err \<Rightarrow> Inl err
         | Inr (points, buf) \<Rightarrow>
       (let constraint_distances = [] @ [mesh_area * max_area - boundary_area e];
            optimise = \<lparr> opt_points = points, opt_move_limit = move_limit,
                         length_x = real lsm_width, length_y = real lsm_height,
                         opt_boundary_area = boundary_area e, opt_mesh_area = mesh_area,
                         opt_max_area = max_area,
                         opt_reduced_move_limit = reduced_move_limit \<rparr>;
            (forced, n) = reinit_schedule (is_reinitialised e) (num_reinit s);
            area = boundary_area e / mesh_area;
            objs = objective_values s @ [objective e]
        in case convergence (objective e) objs count (relative_difference s) of
             Inl err \<Rightarrow> Inl err
           | Inr rd \<Rightarrow>
               Inr (\<lparr> count_iter = count, num_reinit = n, time = time s + time_step e,
                       lambdas = new_lambdas e, objective_values = objs,
                       relative_difference = rd, area_fractions = fractions,
                       boundary_sensitivities = [],
                       txt_file = txt_file s @
                         [Row count (objective e) (von_mises_max e) area rd],
                       calls = calls s @
                         [\<lparr> call_discretise = nsens, call_solver_fractions = fractions,
                            call_constraint_distances = constraint_distances,
                            call_optimise = optimise, call_reinitialise = forced \<rparr>] \<rparr>,
                    area))))"

text \<open>Lines 328-467: the engines' results of iteration \<open>k\<close> are \<open>eng k\<close>.\<close>

function main_loop :: "(nat \<Rightarrow> engine_out) \<Rightarrow> state \<Rightarrow> error + state" where
  "main_loop eng s =
     (if count_iter s < max_iter then
        (case iteration (eng (count_iter s + 1)) s of
           Inl err \<Rightarrow> Inl err
         | Inr (s', area) \<Rightarrow>
             if exit_test (relative_difference s') area then Inr s' else main_loop eng s')
      else Inr s)"
  by pat_completeness auto
termination
  by (relation "measure (\<lambda>(eng, s). max_iter - count_iter s)")
     (auto simp: iteration_def Let_def split: sum.splits prod.splits)

declare main_loop.simps [simp del]

text \<open>Lines 168 and 268-272, 309: the state before the first iteration. The analysis mesh
  and its initial area fractions come from the finite-element library.\<close>

definition init_state :: "real list \<Rightarrow> state" where
  "init_state fea =
     \<lparr> count_iter = 0, num_reinit = 0, time = 0, lambdas = replicate 2 0,
       objective_values = [], relative_difference = 1.0, area_fractions = fea,
       boundary_sensitivities = [], txt_file = [Header], calls = [] \<rparr>"

definition main :: "real list \<Rightarrow> (nat \<Rightarrow> engine_out) \<Rightarrow> error + state" where
  "main fea eng = main_loop eng (init_state fea)"

text \<open>
  The states the loop passes through: \<open>completed eng fea s area\<close> says that some pass
  through the body, in the run that starts from \<open>init_state fea\<close> with the engines \<open>eng\<close>,
  ends in the state \<open>s\<close> with the local \<open>area\<close>. A further pass is made only when the
  test of line 465 fails and the loop condition of line 328 holds.
\<close>

inductive completed :: "(nat \<Rightarrow> engine_out) \<Rightarrow> real list \<Rightarrow> state \<Rightarrow> real \<Rightarrow> bool"
  for eng :: "nat \<Rightarrow> engine_out" and fea :: "real list" where
  first_iteration: "count_iter (init_state fea) < max_iter \<Longrightarrow>
          iteration (eng (count_iter (init_state fea) + 1)) (init_state fea) = Inr (s, area) \<Longrightarrow>
          completed eng fea s area"
| next_iteration: "completed eng fea s area \<Longrightarrow> \<not> exit_test (relative_difference s) area \<Longrightarrow>
         count_iter s < max_iter \<Longrightarrow>
         iteration (eng (count_iter s + 1)) s = Inr (s', area') \<Longrightarrow>
         completed eng fea s' area'"

section \<open>The run in closed form\<close>

text \<open>
  The values the claims speak about, written as functions of the engines' results. The
  lemmas below show that the loop computes exactly these.
\<close>

text \<open>The relative change of the objective between iterations \<open>k\<close> and \<open>m\<close>, and the
  maximum of it over the five iterations before \<open>k\<close>; up to iteration 5 the variable keeps
  its initial value.\<close>

definition relative_change :: "(nat \<Rightarrow> engine_out) \<Rightarrow> nat \<Rightarrow> nat \<Rightarrow> real" where
  "relative_change eng k m = \<bar>(objective (eng k) - objective (eng m)) / objective (eng k)\<bar>"

definition metric :: "(nat \<Rightarrow> engine_out) \<Rightarrow> nat \<Rightarrow> real" where
  "metric eng k = (if k \<le> 5 then 1 else Max (relative_change eng k ` {k - 5..k - 1}))"

definition area_at :: "(nat \<Rightarrow> engine_out) \<Rightarrow> nat \<Rightarrow> real" where
  "area_at eng k = boundary_area (eng k) / mesh_area"

definition converged :: "(nat \<Rightarrow> engine_out) \<Rightarrow> nat \<Rightarrow> bool" where
  "converged eng k \<longleftrightarrow> exit_test (metric eng k) (area_at eng k)"

text \<open>The vector \<open>lambdas\<close> after iteration \<open>k\<close>.\<close>

definition lambdas_at :: "(nat \<Rightarrow> engine_out) \<Rightarrow> nat \<Rightarrow> real list" where
  "lambdas_at eng k = (if k = 0 then replicate 2 0 else new_lambdas (eng k))"

definition history_row :: "(nat \<Rightarrow> engine_out) \<Rightarrow> nat \<Rightarrow> log_line" where
  "history_row eng k =
     Row k (objective (eng k)) (von_mises_max (eng k)) (area_at eng k) (metric eng k)"

definition fractions_at :: "real list \<Rightarrow> (nat \<Rightarrow> engine_out) \<Rightarrow> nat \<Rightarrow> real list" where
  "fractions_at fea eng k =
     (if k = 0 then fea
      else map (\<lambda>f. max f 0.000001) (take (length fea) (lsm_areas (eng k))))"

text \<open>The boundary points of iteration \<open>k\<close> as the loop of lines 362-376 leaves them.\<close>

definition points_at :: "(nat \<Rightarrow> engine_out) \<Rightarrow> nat \<Rightarrow> boundary_point list" where
  "points_at eng k =
     (case assign_sensitivities (eng k) 0
             (discretise (eng k) (length (lambdas_at eng (k - 1)))) [] of
        Inr (points, buf) \<Rightarrow> points
      | Inl err \<Rightarrow> [])"

definition calls_at :: "real list \<Rightarrow> (nat \<Rightarrow> engine_out) \<Rightarrow> nat \<Rightarrow> iter_calls" where
  "calls_at fea eng k =
     \<lparr> call_discretise = length (lambdas_at eng (k - 1)),
       call_solver_fractions = fractions_at fea eng k,
       call_constraint_distances = [mesh_area * max_area - boundary_area (eng k)],
       call_optimise =
         \<lparr> opt_points = points_at eng k, opt_move_limit = move_limit,
           length_x = real lsm_width, length_y = real lsm_height,
           opt_boundary_area = boundary_area (eng k), opt_mesh_area = mesh_area,
           opt_max_area = max_area, opt_reduced_move_limit = reduced_move_limit \<rparr>,
       call_reinitialise = (2 \<le> k \<and> \<not> is_reinitialised (eng k)) \<rparr>"

definition state_after :: "real list \<Rightarrow> (nat \<Rightarrow> engine_out) \<Rightarrow> nat \<Rightarrow> state" where
  "state_after fea eng k =
     \<lparr> count_iter = k, num_reinit = (if k = 0 then 0 else 1),
       time = sum_list (map (\<lambda>j. time_step (eng j)) [1..<Suc k]),
       lambdas = lambdas_at eng k,
       objective_values = map (\<lambda>j. objective (eng j)) [1..<Suc k],
       relative_difference = metric eng k,
       area_fractions = fractions_at fea eng k,
       boundary_sensitivities = [],
       txt_file = Header # map (history_row eng) [1..<Suc k],
       calls = map (calls_at fea eng) [1..<Suc k] \<rparr>"

text \<open>
  The engines' results for which iteration \<open>k\<close> stays inside the model: no index leaves
  a vector, and the objective by which the loop divides is not zero.
\<close>

definition ok_at :: "real list \<Rightarrow> (nat \<Rightarrow> engine_out) \<Rightarrow> nat \<Rightarrow> bool" where
  "ok_at fea eng k \<longleftrightarrow>
     length fea \<le> length (lsm_areas (eng k)) \<and>
     (\<exists>r. assign_sensitivities (eng k) 0
            (discretise (eng k) (length (lambdas_at eng (k - 1)))) [] = Inr r) \<and>
     (5 < k \<longrightarrow> objective (eng k) \<noteq> 0)"

definition wf_engines :: "real list \<Rightarrow> (nat \<Rightarrow> engine_out) \<Rightarrow> bool" where
  "wf_engines fea eng \<longleftrightarrow> (\<forall>k. 1 \<le> k \<and> k \<le> max_iter \<longrightarrow> ok_at fea eng k)"

section \<open>Sample runs\<close>

text \<open>
  Engines for two small runs on a mesh of two elements with one boundary point, whose
  sensitivity engine appends the value 3 to its buffer at every call. With
  \<open>steady_engines\<close> every iteration returns the same results, so the objective is constant
  and the area fraction is the allowed one. With \<open>scripted_engines\<close> the objective of
  iteration \<open>k\<close> is \<open>k\<close>, the structure is too heavy, and only the advection of iteration
  3 reports a reinitialisation.
\<close>

definition sample_fea :: "real list" where
  "sample_fea = [1, 1]"

definition sample_out :: engine_out where
  "sample_out =
     \<lparr> discretise = (\<lambda>n. [\<lparr> coord = (40, 100), sensitivities = replicate n 0 \<rparr>]),
       lsm_areas = [0, 1 / 2], boundary_area = 2560,
       compute_boundary_sensitivities = (\<lambda>pt radius ty p buf. buf @ [3]),
       objective = 2, von_mises_max = 1, time_step = 1 / 10,
       new_lambdas = [0, 0], is_reinitialised = False \<rparr>"

definition steady_engines :: "nat \<Rightarrow> engine_out" where
  "steady_engines k = sample_out"

definition scripted_engines :: "nat \<Rightarrow> engine_out" where
  "scripted_engines k =
     sample_out\<lparr> boundary_area := 3000, objective := real k, is_reinitialised := (k = 3) \<rparr>"

section \<open>The scheduler replayed, and the numbers handed to the optimiser\<close>

text \<open>
  Replaying the scheduler of lines 415-426 on a scripted sequence of the booleans the
  advection step reports: \<open>replay n bs\<close> lists, per iteration, whether the explicit
  reinitialisation was called, and \<open>counter_after n bs\<close> is the counter after the sequence,
  both from the counter value \<open>n\<close>.
\<close>

fun replay :: "real \<Rightarrow> bool list \<Rightarrow> bool list" where
  "replay n [] = []"
| "replay n (b # bs) = fst (reinit_schedule b n) # replay (snd (reinit_schedule b n)) bs"

fun counter_after :: "real \<Rightarrow> bool list \<Rightarrow> real" where
  "counter_after n [] = n"
| "counter_after n (b # bs) = counter_after (snd (reinit_schedule b n)) bs"

text \<open>Every number the optimiser is handed: its scalar settings, then the coordinates and
  the sensitivities of the boundary points.\<close>

definition optimise_reals :: "optimise_args \<Rightarrow> real list" where
  "optimise_reals a =
     [opt_move_limit a, length_x a, length_y a, opt_boundary_area a, opt_mesh_area a,
      opt_max_area a, opt_reduced_move_limit a] @
     concat (map (\<lambda>p. [fst (coord p), snd (coord p)] @ sensitivities p) (opt_points a))"

section \<open>The sensitivity engine\<close>

text \<open>
  Modelled from the spec: \<open>ComputeBoundarySensitivities\<close> of the sensitivity engine, whose
  source is not part of the driver. The engine interpolates one value at the given point,
  for the given radius, objective type and p-norm, and appends it to its buffer
  \<open>boundary_sensitivities\<close>.
\<close>

definition ComputeBoundarySensitivities ::
  "(coord \<Rightarrow> real \<Rightarrow> nat \<Rightarrow> real \<Rightarrow> real) \<Rightarrow>
   coord \<Rightarrow> real \<Rightarrow> nat \<Rightarrow> real \<Rightarrow> real list \<Rightarrow> real list" where
  "ComputeBoundarySensitivities interpolate pt radius ty p buf =
     buf @ [interpolate pt radius ty p]"

text \<open>A boundary point with its two sensitivities set from the interpolated value.\<close>

definition with_sens ::
  "(coord \<Rightarrow> real \<Rightarrow> nat \<Rightarrow> real \<Rightarrow> real) \<Rightarrow> boundary_point \<Rightarrow> boundary_point" where
  "with_sens interpolate p =
     p\<lparr>sensitivities := (sensitivities p)
         [0 := - interpolate (coord p) least_sq_radius sens_type p_norm, 1 := - 1]\<rparr>"

section \<open>The steps compute the closed form\<close>

lemma assign_area_fractions_eq:
  "assign_area_fractions lsm i fea =
     (if length fea \<le> length lsm \<or> length fea \<le> i
      then Inr (take i fea @ map (\<lambda>f. max f 0.000001) (take (length fea - i) (drop i lsm)))
      else Inl OutOfRange)"
proof (induction lsm i fea rule: assign_area_fractions.induct)
  case (1 lsm i fea)
  show ?case
  proof (cases "i < length fea")
    case False
    then show ?thesis by (subst assign_area_fractions.simps) simp
  next
    case True
    note i_fea = this
    show ?thesis
    proof (cases "i < length lsm")
      case False
      with i_fea show ?thesis by (subst assign_area_fractions.simps) simp
    next
      case True
      let ?v = "if lsm ! i < 0.000001 then 0.000001 else lsm ! i"
      have ih: "assign_area_fractions lsm (i + 1) (fea[i := ?v]) =
        (if length fea \<le> length lsm \<or> length fea \<le> i + 1
         then Inr (take (i + 1) (fea[i := ?v]) @
                   map (\<lambda>f. max f 0.000001) (take (length fea - (i + 1)) (drop (i + 1) lsm)))
         else Inl OutOfRange)"
        using "1.IH"[OF i_fea True] by simp
      have t: "take (i + 1) (fea[i := ?v]) = take i fea @ [max (lsm ! i) 0.000001]"
        using i_fea by (simp add: take_Suc_conv_app_nth max_def)
      have d: "take (length fea - i) (drop i lsm) =
               lsm ! i # take (length fea - (i + 1)) (drop (i + 1) lsm)"
        using i_fea True by (simp add: Cons_nth_drop_Suc[symmetric] take_Suc_Cons[symmetric] Suc_diff_Suc del: take_Suc_Cons)
      have c: "(length fea \<le> length lsm \<or> length fea \<le> i + 1) = (length fea \<le> length lsm \<or> length fea \<le> i)"
        using i_fea True by auto
      show ?thesis
        by (subst assign_area_fractions.simps) (simp only: i_fea True if_True ih t d c, simp)
    qed
  qed
qed

lemma Max_insert_max:
  fixes a b :: real
  shows "finite S \<Longrightarrow> Max (insert (max a b) S) = Max (insert a (insert b S))"
  by (cases "S = {}") (simp_all add: max.assoc)

lemma window_loop_eq:
  "6 \<le> count \<Longrightarrow> length objs = count \<Longrightarrow> ok \<noteq> 0 \<Longrightarrow>
   window_loop ok objs count i rd =
     Inr (Max (insert rd ((\<lambda>j. \<bar>(ok - objs ! (count - j - 1)) / ok\<bar>) ` {i..5})))"
proof (induction ok objs count i rd rule: window_loop.induct)
  case (1 ok objs count i rd)
  show ?case
  proof (cases "i \<le> 5")
    case False
    then show ?thesis by (subst window_loop.simps) simp
  next
    case True
    let ?f = "\<lambda>j. \<bar>(ok - objs ! (count - j - 1)) / ok\<bar>"
    have rng: "i + 1 \<le> count \<and> count - i - 1 < length objs"
      using True "1.prems" by auto
    have ih: "window_loop ok objs count (i + 1) (max rd (?f i)) =
        Inr (Max (insert (max rd (?f i)) (?f ` {i + 1..5})))"
      using "1.IH"[OF True rng] "1.prems" by simp
    have s: "{i..5} = insert i {i + 1..5}"
      using True by auto
    have "window_loop ok objs count i rd = window_loop ok objs count (i + 1) (max rd (?f i))"
      using True rng "1.prems" by (subst window_loop.simps) simp
    also have "\<dots> = Inr (Max (insert rd (?f ` {i..5})))"
      unfolding ih by (subst s) (simp add: Max_insert_max)
    finally show ?thesis .
  qed
qed

lemma window_loop_zero:
  "i \<le> 5 \<Longrightarrow> 6 \<le> count \<Longrightarrow> length objs = count \<Longrightarrow>
   window_loop 0 objs count i rd = Inl NonFinite"
  by (subst window_loop.simps) auto

lemma window_image:
  assumes "6 \<le> k"
  shows "(\<lambda>j. \<bar>(objective (eng k) - map (\<lambda>j. objective (eng j)) [1..<Suc k] ! (k - j - 1))
                  / objective (eng k)\<bar>) ` {1..5}
         = relative_change eng k ` {k - 5..k - 1}" (is "?f ` _ = _")
proof -
  have f: "?f j = relative_change eng k (k - j)" if "j \<in> {1..5}" for j
  proof -
    have "k - j - 1 < length [1..<Suc k]" using that assms by auto
    moreover have "[1..<Suc k] ! (k - j - 1) = k - j" using that assms by (simp del: upt_Suc) arith
    ultimately show ?thesis by (simp add: relative_change_def del: upt_Suc)
  qed
  have "?f ` {1..5} = (\<lambda>j. relative_change eng k (k - j)) ` {1..5}"
    using f by (intro image_cong) auto
  also have "\<dots> = relative_change eng k ` ((\<lambda>j. k - j) ` {1..5})"
    by (simp add: image_image)
  also have "(\<lambda>j. k - j) ` {1..5} = {k - 5..k - 1}"
  proof (intro set_eqI iffI)
    fix x assume "x \<in> (\<lambda>j. k - j) ` {1..5}"
    then show "x \<in> {k - 5..k - 1}" using assms by auto
  next
    fix x assume x: "x \<in> {k - 5..k - 1}"
    then have "k - x \<in> {1..5}" "x = k - (k - x)" using assms by auto
    then show "x \<in> (\<lambda>j. k - j) ` {1..5}" by (rule_tac image_eqI)
  qed
  finally show ?thesis .
qed

lemma convergence_eq:
  "convergence (objective (eng (Suc k))) (map (\<lambda>j. objective (eng j)) [1..<Suc (Suc k)])
       (Suc k) (metric eng k) =
     (if 5 < Suc k \<and> objective (eng (Suc k)) = 0 then Inl NonFinite
      else Inr (metric eng (Suc k)))"
proof (cases "5 < Suc k")
  case False
  then show ?thesis by (simp add: convergence_def metric_def)
next
  case True
  then have six: "6 \<le> Suc k" by simp
  have len: "length (map (\<lambda>j. objective (eng j)) [1..<Suc (Suc k)]) = Suc k" by simp
  show ?thesis
  proof (cases "objective (eng (Suc k)) = 0")
    case z: True
    show ?thesis
      using True z window_loop_zero[OF _ six len, of 1 0]
      by (simp add: convergence_def del: upt_Suc)
  next
    case nz: False
    have ne: "relative_change eng (Suc k) ` {Suc k - 5..Suc k - 1} \<noteq> {}"
      using True by auto
    have nonneg: "\<forall>x \<in> relative_change eng (Suc k) ` {Suc k - 5..Suc k - 1}. 0 \<le> x"
      by (auto simp: relative_change_def)
    have "Max (insert 0 (relative_change eng (Suc k) ` {Suc k - 5..Suc k - 1}))
          = Max (relative_change eng (Suc k) ` {Suc k - 5..Suc k - 1})"
      using ne nonneg by (subst Max_insert) (auto simp: max_def Max_ge_iff)
    then show ?thesis
      using True nz window_loop_eq[OF six len nz, of 1 0] window_image[OF six, of eng]
      by (simp add: convergence_def metric_def del: upt_Suc)
  qed
qed

lemma reinit_schedule_eq:
  "reinit_schedule b (if k = (0::nat) then 0 else 1) = (1 \<le> k \<and> \<not> b, 1)"
  by (auto simp: reinit_schedule_def)

lemma assign_area_fractions_first:
  assumes "k = 0 \<or> length fea \<le> length (lsm_areas (eng k))"
  shows "assign_area_fractions (lsm_areas e) 0 (fractions_at fea eng k) =
      (if length fea \<le> length (lsm_areas e) then Inr (map (\<lambda>f. max f 0.000001) (take (length fea) (lsm_areas e)))
       else Inl OutOfRange)"
proof -
  have "length (fractions_at fea eng k) = length fea"
    using assms by (auto simp: fractions_at_def)
  then show ?thesis
    by (simp add: assign_area_fractions_eq)
qed

lemma state_after_sel:
  "count_iter (state_after fea eng k) = k"
  "num_reinit (state_after fea eng k) = (if k = 0 then 0 else 1)"
  "time (state_after fea eng k) = sum_list (map (\<lambda>j. time_step (eng j)) [1..<Suc k])"
  "lambdas (state_after fea eng k) = lambdas_at eng k"
  "objective_values (state_after fea eng k) = map (\<lambda>j. objective (eng j)) [1..<Suc k]"
  "relative_difference (state_after fea eng k) = metric eng k"
  "area_fractions (state_after fea eng k) = fractions_at fea eng k"
  "boundary_sensitivities (state_after fea eng k) = []"
  "txt_file (state_after fea eng k) = Header # map (history_row eng) [1..<Suc k]"
  "calls (state_after fea eng k) = map (calls_at fea eng) [1..<Suc k]"
  by (simp_all add: state_after_def del: upt_Suc)

lemma state_after_Suc:
  "state_after fea eng (Suc k) =
     \<lparr> count_iter = Suc k, num_reinit = 1,
       time = time (state_after fea eng k) + time_step (eng (Suc k)),
       lambdas = new_lambdas (eng (Suc k)),
       objective_values = objective_values (state_after fea eng k) @ [objective (eng (Suc k))],
       relative_difference = metric eng (Suc k),
       area_fractions = fractions_at fea eng (Suc k),
       boundary_sensitivities = [],
       txt_file = txt_file (state_after fea eng k) @ [history_row eng (Suc k)],
       calls = calls (state_after fea eng k) @ [calls_at fea eng (Suc k)] \<rparr>"
  by (simp add: state_after_def lambdas_at_def)

lemma iteration_state_after:
  assumes "k = 0 \<or> length fea \<le> length (lsm_areas (eng k))"
  shows "iteration (eng (Suc k)) (state_after fea eng k) = Inr (s', a) \<longleftrightarrow>
     ok_at fea eng (Suc k) \<and> s' = state_after fea eng (Suc k) \<and> a = area_at eng (Suc k)"
proof -
  let ?e = "eng (Suc k)"
  let ?s = "state_after fea eng k"
  let ?pts = "discretise ?e (length (lambdas_at eng k))"
  have cv: "convergence (objective ?e) (objective_values ?s @ [objective ?e])
      (count_iter ?s + 1) (relative_difference ?s) =
     (if 5 < Suc k \<and> objective ?e = 0 then Inl NonFinite
      else Inr (metric eng (Suc k)))"
    using convergence_eq[of eng k] by (simp add: state_after_sel)
  have af': "assign_area_fractions (lsm_areas ?e) 0 (area_fractions ?s) =
     (if length fea \<le> length (lsm_areas ?e) then Inr (fractions_at fea eng (Suc k))
      else Inl OutOfRange)"
    using assign_area_fractions_first[of k fea eng ?e] assms by (simp add: state_after_sel fractions_at_def)
  have as0: "discretise ?e (length (lambdas ?s)) = ?pts" "boundary_sensitivities ?s = []"
    by (simp_all add: state_after_sel)
  have rs: "reinit_schedule (is_reinitialised ?e) (num_reinit ?s) =
      (call_reinitialise (calls_at fea eng (Suc k)), 1)"
    by (simp add: state_after_sel reinit_schedule_eq calls_at_def)
  show ?thesis
  proof (cases "assign_sensitivities ?e 0 ?pts []")
    case (Inl err)
    have "iteration ?e ?s =
       (if \<not> length fea \<le> length (lsm_areas ?e) then Inl OutOfRange else Inl err)"
      unfolding iteration_def Let_def af' as0 Inl by simp
    moreover have "\<not> ok_at fea eng (Suc k)"
      using Inl by (simp add: ok_at_def)
    ultimately show ?thesis by auto
  next
    case (Inr r)
    obtain points buf where r: "r = (points, buf)" by (cases r)
    have pa: "points_at eng (Suc k) = points"
      using Inr r by (simp add: points_at_def)
    have it: "iteration ?e ?s =
       (if \<not> length fea \<le> length (lsm_areas ?e) then Inl OutOfRange
        else if 5 < Suc k \<and> objective ?e = 0 then Inl NonFinite
        else Inr (state_after fea eng (Suc k), area_at eng (Suc k)))"
      unfolding iteration_def Let_def af' as0 Inr r rs cv state_after_Suc
      by (simp add: state_after_sel(1,4) calls_at_def history_row_def area_at_def pa
            del: upt_Suc)
    show ?thesis
      unfolding it using Inr by (auto simp: ok_at_def)
  qed
qed

lemma init_state_eq: "init_state fea = state_after fea eng 0"
  by (simp add: init_state_def state_after_def lambdas_at_def metric_def fractions_at_def)

lemma ok_at_lsm: "ok_at fea eng k \<Longrightarrow> length fea \<le> length (lsm_areas (eng k))"
  by (simp add: ok_at_def)

lemma completed_closed:
  "completed eng fea s a \<Longrightarrow>
   \<exists>k. 1 \<le> k \<and> k \<le> max_iter \<and> s = state_after fea eng k \<and> a = area_at eng k \<and>
       (\<forall>j. 1 \<le> j \<and> j \<le> k \<longrightarrow> ok_at fea eng j) \<and>
       (\<forall>j. 1 \<le> j \<and> j < k \<longrightarrow> \<not> converged eng j)"
proof (induction rule: completed.induct)
  case (first_iteration s area)
  from first_iteration(2) have "iteration (eng (Suc 0)) (state_after fea eng 0) = Inr (s, area)"
    by (simp add: init_state_eq[of fea eng] state_after_sel)
  then have "ok_at fea eng 1 \<and> s = state_after fea eng 1 \<and> area = area_at eng 1"
    by (simp add: iteration_state_after)
  moreover have "1 \<le> max_iter" by (simp add: max_iter_def)
  moreover have "\<forall>j. 1 \<le> j \<and> j \<le> (1::nat) \<longrightarrow> j = 1" by auto
  ultimately show ?case by (intro exI[of _ 1]) auto
next
  case (next_iteration s area s' area')
  then obtain k where k: "1 \<le> k" "k \<le> max_iter" "s = state_after fea eng k"
      "area = area_at eng k" "\<forall>j. 1 \<le> j \<and> j \<le> k \<longrightarrow> ok_at fea eng j"
      "\<forall>j. 1 \<le> j \<and> j < k \<longrightarrow> \<not> converged eng j"
    by blast
  have lt: "k < max_iter" using next_iteration(3) k(3) by (simp add: state_after_sel)
  have nc: "\<not> converged eng k" using next_iteration(2) k(3,4) by (simp add: converged_def state_after_sel)
  have "length fea \<le> length (lsm_areas (eng k))" using k(1,5) by (auto intro: ok_at_lsm)
  moreover have "iteration (eng (Suc k)) (state_after fea eng k) = Inr (s', area')"
    using next_iteration(4) k(3) by (simp add: state_after_sel)
  ultimately have r: "ok_at fea eng (Suc k) \<and> s' = state_after fea eng (Suc k) \<and> area' = area_at eng (Suc k)"
    by (simp add: iteration_state_after)
  have a: "\<forall>j. 1 \<le> j \<and> j \<le> Suc k \<longrightarrow> ok_at fea eng j"
    using k(5) r by (auto simp: le_Suc_eq)
  have b: "\<forall>j. 1 \<le> j \<and> j < Suc k \<longrightarrow> \<not> converged eng j"
    using k(6) nc by (auto simp: less_Suc_eq)
  show ?case using r a b lt by (intro exI[of _ "Suc k"]) auto
qed

lemma completed_state_after:
  "1 \<le> k \<Longrightarrow> k \<le> max_iter \<Longrightarrow> (\<forall>j. 1 \<le> j \<and> j \<le> k \<longrightarrow> ok_at fea eng j) \<Longrightarrow>
   (\<forall>j. 1 \<le> j \<and> j < k \<longrightarrow> \<not> converged eng j) \<Longrightarrow>
   completed eng fea (state_after fea eng k) (area_at eng k)"
proof (induction k)
  case 0
  then show ?case by simp
next
  case (Suc k)
  show ?case
  proof (cases "k = 0")
    case True
    have "ok_at fea eng (Suc 0)" using Suc.prems by auto
    then have "iteration (eng (Suc 0)) (state_after fea eng 0) =
        Inr (state_after fea eng (Suc 0), area_at eng (Suc 0))"
      by (simp add: iteration_state_after)
    then have "iteration (eng (count_iter (init_state fea) + 1)) (init_state fea) =
        Inr (state_after fea eng (Suc 0), area_at eng (Suc 0))"
      by (simp add: init_state_eq[of fea eng] state_after_sel)
    moreover have "count_iter (init_state fea) < max_iter"
      by (simp add: init_state_def max_iter_def)
    ultimately show ?thesis using True by (auto intro: completed.first_iteration)
  next
    case False
    then have k1: "1 \<le> k" by simp
    have c: "completed eng fea (state_after fea eng k) (area_at eng k)"
      using Suc.IH k1 Suc.prems by auto
    have nc: "\<not> exit_test (relative_difference (state_after fea eng k)) (area_at eng k)"
      using Suc.prems(4) k1 by (auto simp: converged_def state_after_sel)
    have lt: "count_iter (state_after fea eng k) < max_iter"
      using Suc.prems(2) by (simp add: state_after_sel)
    have "length fea \<le> length (lsm_areas (eng k))"
      using Suc.prems(3) k1 by (auto intro: ok_at_lsm)
    moreover have "ok_at fea eng (Suc k)" using Suc.prems(3) by auto
    ultimately have "iteration (eng (Suc k)) (state_after fea eng k) =
        Inr (state_after fea eng (Suc k), area_at eng (Suc k))"
      by (simp add: iteration_state_after)
    then have "iteration (eng (count_iter (state_after fea eng k) + 1)) (state_after fea eng k) =
        Inr (state_after fea eng (Suc k), area_at eng (Suc k))"
      by (simp add: state_after_sel)
    from completed.next_iteration[OF c nc lt this] show ?thesis .
  qed
qed

lemma main_loop_state_after:
  assumes wf: "wf_engines fea eng"
  shows "k \<le> max_iter \<Longrightarrow> (\<forall>j. 1 \<le> j \<and> j \<le> k \<longrightarrow> \<not> converged eng j) \<Longrightarrow>
    \<exists>K. k \<le> K \<and> K \<le> max_iter \<and> (k < max_iter \<longrightarrow> k < K) \<and>
        main_loop eng (state_after fea eng k) = Inr (state_after fea eng K) \<and>
        (\<forall>j. 1 \<le> j \<and> j < K \<longrightarrow> \<not> converged eng j) \<and>
        (K = max_iter \<or> converged eng K)"
proof (induction "max_iter - k" arbitrary: k)
  case 0
  then have "k = max_iter" by simp
  then have "main_loop eng (state_after fea eng k) = Inr (state_after fea eng k)"
    by (subst main_loop.simps) (simp add: state_after_sel)
  then show ?case using 0 \<open>k = max_iter\<close> by (intro exI[of _ k]) auto
next
  case (Suc n)
  then have lt: "k < max_iter" by simp
  have "k = 0 \<or> length fea \<le> length (lsm_areas (eng k))"
    using wf Suc.prems(1) by (cases "k = 0") (auto simp: wf_engines_def intro: ok_at_lsm)
  moreover have "ok_at fea eng (Suc k)"
    using wf lt by (simp add: wf_engines_def)
  ultimately have it: "iteration (eng (Suc k)) (state_after fea eng k) =
      Inr (state_after fea eng (Suc k), area_at eng (Suc k))"
    by (simp add: iteration_state_after state_after_sel)
  have step: "main_loop eng (state_after fea eng k) =
      (if converged eng (Suc k) then Inr (state_after fea eng (Suc k))
       else main_loop eng (state_after fea eng (Suc k)))"
    using lt by (subst main_loop.simps) (simp add: it state_after_sel converged_def)
  show ?case
  proof (cases "converged eng (Suc k)")
    case True
    then show ?thesis using step lt Suc.prems(2)
      by (intro exI[of _ "Suc k"]) (auto simp: less_Suc_eq)
  next
    case False
    have n: "n = max_iter - Suc k" using Suc.hyps(2) by simp
    have nc: "\<forall>j. 1 \<le> j \<and> j \<le> Suc k \<longrightarrow> \<not> converged eng j"
      using Suc.prems(2) False by (auto simp: le_Suc_eq)
    from Suc.hyps(1)[OF n _ nc] lt
    obtain K where K: "Suc k \<le> K" "K \<le> max_iter"
      "main_loop eng (state_after fea eng (Suc k)) = Inr (state_after fea eng K)"
      "\<forall>j. 1 \<le> j \<and> j < K \<longrightarrow> \<not> converged eng j" "K = max_iter \<or> converged eng K"
      by auto
    show ?thesis using K step False by (intro exI[of _ K]) auto
  qed
qed

lemma main_result:
  assumes wf: "wf_engines fea eng"
  shows "\<exists>K. 1 \<le> K \<and> K \<le> max_iter \<and> main fea eng = Inr (state_after fea eng K) \<and>
        (\<forall>j. 1 \<le> j \<and> j \<le> K \<longrightarrow> ok_at fea eng j) \<and>
        (\<forall>j. 1 \<le> j \<and> j < K \<longrightarrow> \<not> converged eng j) \<and>
        (K = max_iter \<or> converged eng K)"
proof -
  have "0 < max_iter" by (simp add: max_iter_def)
  with main_loop_state_after[OF wf, of 0]
  obtain K where K: "0 < K" "K \<le> max_iter"
      "main_loop eng (state_after fea eng 0) = Inr (state_after fea eng K)"
      "\<forall>j. 1 \<le> j \<and> j < K \<longrightarrow> \<not> converged eng j" "K = max_iter \<or> converged eng K"
    by auto
  have "\<forall>j. 1 \<le> j \<and> j \<le> K \<longrightarrow> ok_at fea eng j"
    using wf K(2) by (auto simp: wf_engines_def)
  then show ?thesis using K
    by (intro exI[of _ K]) (auto simp: main_def init_state_eq[of fea eng])
qed

section \<open>Facts about the closed form and the sample runs\<close>

lemma nth_upt_from_one: "1 \<le> j \<Longrightarrow> j \<le> k \<Longrightarrow> [1..<Suc k] ! (j - 1) = j"
  using nth_upt[of 1 "j - 1" "Suc k"] by simp

lemma last_calls_state_after:
  "1 \<le> k \<Longrightarrow> last (calls (state_after fea eng k)) = calls_at fea eng k"
  by (simp add: state_after_sel last_map del: upt_Suc)

lemma nth_calls_state_after:
  "1 \<le> j \<Longrightarrow> j \<le> k \<Longrightarrow> calls (state_after fea eng k) ! (j - 1) = calls_at fea eng j"
  using nth_upt_from_one[of j k] by (simp add: state_after_sel del: upt_Suc)

lemma nth_txt_file_state_after:
  "1 \<le> j \<Longrightarrow> j \<le> k \<Longrightarrow> txt_file (state_after fea eng k) ! j = history_row eng j"
  using nth_upt_from_one[of j k] by (simp add: state_after_sel nth_Cons' del: upt_Suc)

lemma nth_objective_values_state_after:
  "1 \<le> j \<Longrightarrow> j \<le> k \<Longrightarrow> objective_values (state_after fea eng k) ! (j - 1) = objective (eng j)"
  using nth_upt_from_one[of j k] by (simp add: state_after_sel del: upt_Suc)

lemma metric_history:
  assumes "5 < k"
  shows "metric eng k =
     Max ((\<lambda>m. \<bar>(objective_values (state_after fea eng k) ! (k - 1)
                   - objective_values (state_after fea eng k) ! (m - 1))
                  / objective_values (state_after fea eng k) ! (k - 1)\<bar>) ` {k - 5..k - 1})"
proof -
  have "relative_change eng k ` {k - 5..k - 1} =
        (\<lambda>m. \<bar>(objective_values (state_after fea eng k) ! (k - 1)
                   - objective_values (state_after fea eng k) ! (m - 1))
                  / objective_values (state_after fea eng k) ! (k - 1)\<bar>) ` {k - 5..k - 1}"
  proof (rule image_cong[OF refl])
    fix m assume "m \<in> {k - 5..k - 1}"
    then have m: "1 \<le> m" "m \<le> k" using assms by auto
    have k: "1 \<le> k" "k \<le> k" using assms by auto
    show "relative_change eng k m =
       \<bar>(objective_values (state_after fea eng k) ! (k - 1)
                   - objective_values (state_after fea eng k) ! (m - 1))
                  / objective_values (state_after fea eng k) ! (k - 1)\<bar>"
      unfolding nth_objective_values_state_after[OF m] nth_objective_values_state_after[OF k]
      by (simp add: relative_change_def)
  qed
  then show ?thesis using assms by (simp add: metric_def)
qed

lemma assign_sensitivities_one_point:
  "compute_boundary_sensitivities e = (\<lambda>pt radius ty p buf. buf @ [v]) \<Longrightarrow>
   assign_sensitivities e 0 [\<lparr> coord = c, sensitivities = [a, b] \<rparr>] [] =
     Inr ([\<lparr> coord = c, sensitivities = [- v, - 1] \<rparr>], [v])"
  by (subst assign_sensitivities.simps, simp add: Let_def)
     (subst assign_sensitivities.simps, simp)

lemma lambdas_sample:
  "length (lambdas_at steady_engines k) = 2" "length (lambdas_at scripted_engines k) = 2"
  by (simp_all add: lambdas_at_def steady_engines_def scripted_engines_def sample_out_def)

lemma discretise_sample:
  "discretise (steady_engines k) 2 = [\<lparr> coord = (40, 100), sensitivities = [0, 0] \<rparr>]"
  "discretise (scripted_engines k) 2 = [\<lparr> coord = (40, 100), sensitivities = [0, 0] \<rparr>]"
  by (simp_all add: steady_engines_def scripted_engines_def sample_out_def numeral_2_eq_2)

lemma assign_sensitivities_sample:
  "assign_sensitivities (steady_engines k) 0
     [\<lparr> coord = (40, 100), sensitivities = [0, 0] \<rparr>] [] =
   Inr ([\<lparr> coord = (40, 100), sensitivities = [- 3, - 1] \<rparr>], [3])"
  "assign_sensitivities (scripted_engines k) 0
     [\<lparr> coord = (40, 100), sensitivities = [0, 0] \<rparr>] [] =
   Inr ([\<lparr> coord = (40, 100), sensitivities = [- 3, - 1] \<rparr>], [3])"
  by (rule assign_sensitivities_one_point,
      simp add: steady_engines_def scripted_engines_def sample_out_def)+

lemma points_sample:
  "points_at steady_engines k = [\<lparr> coord = (40, 100), sensitivities = [- 3, - 1] \<rparr>]"
  "points_at scripted_engines k = [\<lparr> coord = (40, 100), sensitivities = [- 3, - 1] \<rparr>]"
  by (simp_all add: points_at_def lambdas_sample discretise_sample assign_sensitivities_sample)

lemma ok_at_sample:
  "ok_at sample_fea steady_engines k" "ok_at sample_fea scripted_engines k"
proof -
  show "ok_at sample_fea steady_engines k"
    unfolding ok_at_def lambdas_sample discretise_sample assign_sensitivities_sample
    by (simp add: sample_fea_def steady_engines_def sample_out_def)
  show "ok_at sample_fea scripted_engines k"
    unfolding ok_at_def lambdas_sample discretise_sample assign_sensitivities_sample
    by (simp add: sample_fea_def scripted_engines_def sample_out_def)
qed

lemma wf_sample:
  "wf_engines sample_fea steady_engines" "wf_engines sample_fea scripted_engines"
  by (simp_all add: wf_engines_def ok_at_sample)

lemma not_converged_early: "k \<le> 5 \<Longrightarrow> \<not> converged eng k"
  by (simp add: converged_def metric_def exit_test_def)

lemma not_converged_scripted: "\<not> converged scripted_engines k"
  by (simp add: converged_def exit_test_def area_at_def scripted_engines_def sample_out_def
        mesh_area_def lsm_width_def lsm_height_def num_elem_x_def num_elem_y_def max_area_def)

lemma completed_scripted:
  "1 \<le> k \<Longrightarrow> k \<le> 500 \<Longrightarrow>
   completed scripted_engines sample_fea (state_after sample_fea scripted_engines k)
     (area_at scripted_engines k)"
  by (rule completed_state_after) (simp_all add: max_iter_def ok_at_sample not_converged_scripted)

lemma completed_steady:
  "1 \<le> k \<Longrightarrow> k \<le> 6 \<Longrightarrow>
   completed steady_engines sample_fea (state_after sample_fea steady_engines k)
     (area_at steady_engines k)"
  by (rule completed_state_after) (simp_all add: max_iter_def ok_at_sample not_converged_early)

lemma one_to_five: "{Suc 0..5} = {1, 2, 3, 4, 5::nat}"
  by auto

lemma converged_steady_6: "converged steady_engines 6"
  by (simp add: converged_def exit_test_def metric_def relative_change_def area_at_def
        steady_engines_def sample_out_def one_to_five
        mesh_area_def lsm_width_def lsm_height_def num_elem_x_def num_elem_y_def max_area_def)

lemma main_steady: "main sample_fea steady_engines = Inr (state_after sample_fea steady_engines 6)"
proof -
  from main_result[OF wf_sample(1)] obtain K where
    K: "1 \<le> K" "main sample_fea steady_engines = Inr (state_after sample_fea steady_engines K)"
       "\<forall>j. 1 \<le> j \<and> j < K \<longrightarrow> \<not> converged steady_engines j"
       "K = max_iter \<or> converged steady_engines K"
    by blast
  have "\<not> 6 < K" using K(3) converged_steady_6 by auto
  moreover have "\<not> K \<le> 5" using K(4) not_converged_early[of K steady_engines]
    by (auto simp: max_iter_def)
  ultimately have "K = 6" by simp
  with K(2) show ?thesis by simp
qed

lemma objective_values_scripted_6:
  "objective_values (state_after sample_fea scripted_engines 6) = [1, 2, 3, 4, 5, 6]"
  by (simp add: state_after_sel scripted_engines_def sample_out_def upt_rec)

lemma replay_length: "length (replay n bs) = length bs"
  by (induction bs arbitrary: n) simp_all

lemma reinit_schedule_fst: "fst (reinit_schedule b n) = (\<not> b \<and> n = 1)"
  by (simp add: reinit_schedule_def)

lemma reinit_schedule_snd: "n = 0 \<or> n = 1 \<Longrightarrow> snd (reinit_schedule b n) = 1"
  by (auto simp: reinit_schedule_def)

lemma reinitialise_calls_from:
  "1 \<le> i \<Longrightarrow>
   map (\<lambda>j. call_reinitialise (calls_at fea eng j)) [i..<i + n] =
   replay (if 2 \<le> i then 1 else 0) (map (\<lambda>j. is_reinitialised (eng j)) [i..<i + n])"
proof (induction n arbitrary: i)
  case 0
  then show ?case by simp
next
  case (Suc n)
  have u: "[i..<i + Suc n] = i # [Suc i..<Suc i + n]"
    by (simp add: upt_rec)
  have ih: "map (\<lambda>j. call_reinitialise (calls_at fea eng j)) [Suc i..<Suc i + n] =
      replay 1 (map (\<lambda>j. is_reinitialised (eng j)) [Suc i..<Suc i + n])"
    using Suc.IH[of "Suc i"] Suc.prems by simp
  have s: "snd (reinit_schedule (is_reinitialised (eng i)) (if 2 \<le> i then 1 else 0)) = 1"
    by (rule reinit_schedule_snd) simp
  have f: "fst (reinit_schedule (is_reinitialised (eng i)) (if 2 \<le> i then 1 else 0)) =
      call_reinitialise (calls_at fea eng i)"
    by (auto simp: reinit_schedule_fst calls_at_def)
  show ?case
    unfolding u list.map replay.simps s f ih ..
qed

lemma reinitialise_calls_replay:
  "map call_reinitialise (calls (state_after fea eng k)) =
   replay 0 (map (\<lambda>j. is_reinitialised (eng j)) [1..<Suc k])"
  using reinitialise_calls_from[of 1 fea eng k]
  by (simp add: state_after_sel comp_def del: upt_Suc)

lemma main_scripted:
  "\<exists>K. 1 \<le> K \<and> main sample_fea scripted_engines = Inr (state_after sample_fea scripted_engines K)"
  using main_result[OF wf_sample(2)] by blast

lemma take_txt_file_state_after:
  "k \<le> K \<Longrightarrow> take (Suc k) (txt_file (state_after fea eng K)) = txt_file (state_after fea eng k)"
  by (simp add: state_after_sel take_map min_def del: upt_Suc)

lemma assign_sensitivities_eq:
  "compute_boundary_sensitivities e = ComputeBoundarySensitivities f \<Longrightarrow> length buf = i \<Longrightarrow>
   assign_sensitivities e i points buf =
     (if \<forall>p \<in> set (drop i points). 1 < length (sensitivities p)
      then Inr (take i points @ map (with_sens f) (drop i points),
                buf @ map (\<lambda>p. f (coord p) least_sq_radius sens_type p_norm) (drop i points))
      else Inl OutOfRange)"
proof (induction e i points buf rule: assign_sensitivities.induct)
  case (1 e i points buf)
  note eng = "1.prems"(1) and len_buf = "1.prems"(2)
  show ?case
  proof (cases "i < length points")
    case False
    then show ?thesis by (subst assign_sensitivities.simps) simp
  next
    case True
    let ?buf1 = "buf @ [f (coord (points ! i)) least_sq_radius sens_type p_norm]"
    let ?p' = "(points ! i)\<lparr>sensitivities :=
                    (sensitivities (points ! i))[0 := - (?buf1 ! i), 1 := - 1]\<rparr>"
    have b1: "compute_boundary_sensitivities e (coord (points ! i)) least_sq_radius sens_type
                p_norm buf = ?buf1"
      by (simp add: eng ComputeBoundarySensitivities_def)
    have p': "?p' = with_sens f (points ! i)"
      using len_buf by (simp add: with_sens_def nth_append)
    have dr: "drop i points = points ! i # drop (i + 1) points"
      using True by (simp add: Cons_nth_drop_Suc)
    show ?thesis
    proof (cases "1 < length (sensitivities (points ! i))")
      case False
      then show ?thesis using True len_buf
        by (subst assign_sensitivities.simps) (simp add: Let_def b1 dr)
    next
      case len: True
      have ih: "assign_sensitivities e (i + 1) (points[i := ?p']) ?buf1 =
        (if \<forall>p \<in> set (drop (i + 1) (points[i := ?p'])). 1 < length (sensitivities p)
         then Inr (take (i + 1) (points[i := ?p']) @
                     map (with_sens f) (drop (i + 1) (points[i := ?p'])),
                   ?buf1 @ map (\<lambda>p. f (coord p) least_sq_radius sens_type p_norm)
                             (drop (i + 1) (points[i := ?p'])))
         else Inl OutOfRange)"
        using "1.IH"[OF True refl refl _ eng] len len_buf by (simp add: b1)
      have t: "take (i + 1) (points[i := ?p']) = take i points @ [with_sens f (points ! i)]"
        using True p' by (simp add: take_Suc_conv_app_nth)
      have d: "drop (i + 1) (points[i := ?p']) = drop (i + 1) points"
        by simp
      have step: "assign_sensitivities e i points buf =
          assign_sensitivities e (i + 1) (points[i := ?p']) ?buf1"
        using True len len_buf by (subst assign_sensitivities.simps) (simp add: Let_def b1)
      show ?thesis
        unfolding step ih t d using len by (simp add: dr)
    qed
  qed
qed

section \<open>The claims\<close>

subsection \<open>The convergence tracker\<close>

text \<open>
  C1, as amended. At the end of every completed iteration \<open>k\<close> the objective history holds
  the objectives of the iterations 1 to \<open>k\<close>, and the relative-difference variable, which
  is the value written to the history file, is 1 (its initial value) when \<open>k \<le> 5\<close> and
  otherwise the maximum over \<open>m\<close> in \<open>{k - 5, ..., k - 1}\<close> of
  \<open>|(objective_k - objective_m) / objective_k|\<close>, read from the objective history.
  (A completed iteration with \<open>k > 5\<close> has a non-zero \<open>objective_k\<close>: the quotient by zero
  is outside the model.)
\<close>

theorem C1_relative_difference:
  assumes "completed eng fea s area"
  shows "length (objective_values s) = count_iter s \<and>
         (\<forall>m. 1 \<le> m \<and> m \<le> count_iter s \<longrightarrow> objective_values s ! (m - 1) = objective (eng m)) \<and>
         relative_difference s =
           (if count_iter s \<le> 5 then 1
            else Max ((\<lambda>m. \<bar>(objective_values s ! (count_iter s - 1) - objective_values s ! (m - 1))
                             / objective_values s ! (count_iter s - 1)\<bar>)
                      ` {count_iter s - 5..count_iter s - 1})) \<and>
         row_change (last (txt_file s)) = relative_difference s"
proof -
  from completed_closed[OF assms] obtain k where
    k: "1 \<le> k" "s = state_after fea eng k" by blast
  have a: "length (objective_values s) = count_iter s"
    unfolding k(2) by (simp add: state_after_sel del: upt_Suc)
  have b: "\<forall>m. 1 \<le> m \<and> m \<le> count_iter s \<longrightarrow> objective_values s ! (m - 1) = objective (eng m)"
    unfolding k(2) using nth_objective_values_state_after[of _ k fea eng]
    by (simp add: state_after_sel(1))
  have c: "relative_difference s =
           (if count_iter s \<le> 5 then 1
            else Max ((\<lambda>m. \<bar>(objective_values s ! (count_iter s - 1) - objective_values s ! (m - 1))
                             / objective_values s ! (count_iter s - 1)\<bar>)
                      ` {count_iter s - 5..count_iter s - 1}))"
  proof (cases "k \<le> 5")
    case True
    then show ?thesis unfolding k(2) by (simp add: state_after_sel(1,6) metric_def)
  next
    case False
    then have "5 < k" by simp
    from metric_history[OF this, of eng fea] False show ?thesis
      unfolding k(2) by (simp add: state_after_sel(1,6))
  qed
  have d: "row_change (last (txt_file s)) = relative_difference s"
    unfolding k(2) using k(1)
    by (simp add: state_after_sel last_map history_row_def del: upt_Suc)
  show ?thesis using a b c d by blast
qed

text \<open>The sixth iteration of the scripted run: the history is 1, ..., 6 and the maximum
  is \<open>|(6 - 1) / 6|\<close>.\<close>

theorem C1_relative_difference_witness:
  "completed scripted_engines sample_fea (state_after sample_fea scripted_engines 6)
     (area_at scripted_engines 6) \<and>
   count_iter (state_after sample_fea scripted_engines 6) = 6 \<and>
   objective_values (state_after sample_fea scripted_engines 6) = [1, 2, 3, 4, 5, 6] \<and>
   relative_difference (state_after sample_fea scripted_engines 6) = 5 / 6"
proof -
  let ?s = "state_after sample_fea scripted_engines 6"
  have c: "completed scripted_engines sample_fea ?s (area_at scripted_engines 6)"
    by (rule completed_scripted) simp_all
  have n: "count_iter ?s = 6" by (simp add: state_after_sel(1))
  from C1_relative_difference[OF c]
  have "relative_difference ?s =
           (if count_iter ?s \<le> 5 then 1
            else Max ((\<lambda>m. \<bar>(objective_values ?s ! (count_iter ?s - 1) - objective_values ?s ! (m - 1))
                             / objective_values ?s ! (count_iter ?s - 1)\<bar>)
                      ` {count_iter ?s - 5..count_iter ?s - 1}))"
    by blast
  then have "relative_difference ?s = 5 / 6"
    unfolding n objective_values_scripted_6 by (simp add: one_to_five)
  with c n objective_values_scripted_6 show ?thesis by blast
qed

text \<open>
  C1 as stated asks for the value 0 up to iteration 5. In the steady run the history file
  records, for iteration 1, a relative difference that is not 0.
\<close>

theorem C1_counterexample:
  "\<not> isl (main sample_fea steady_engines) \<and>
   row_change (txt_file (projr (main sample_fea steady_engines)) ! 1) \<noteq> 0"
  by (simp add: main_steady nth_txt_file_state_after history_row_def metric_def)

subsection \<open>Termination\<close>

text \<open>
  C2. For engines that keep the run inside the model, \<open>main\<close> returns. The state it
  returns is the end of a completed iteration, between the first and the 500th, at which
  the exit test of line 465 holds or which is the 500th. No completed iteration of the run
  has a larger iteration count, and a completed iteration at which the exit test holds, or
  which is the 500th, is the returned one: the loop stops at the first such iteration and
  makes no pass after it.
\<close>

theorem C2_termination:
  assumes "wf_engines fea eng"
  shows "\<exists>s area. main fea eng = Inr s \<and> completed eng fea s area \<and>
           1 \<le> count_iter s \<and> count_iter s \<le> 500 \<and>
           (exit_test (relative_difference s) area \<or> count_iter s = 500) \<and>
           (\<forall>s' area'. completed eng fea s' area' \<longrightarrow>
              count_iter s' \<le> count_iter s \<and>
              (exit_test (relative_difference s') area' \<or> count_iter s' = 500 \<longrightarrow> s' = s))"
proof -
  from main_result[OF assms] obtain K where
    K: "1 \<le> K" "K \<le> max_iter" "main fea eng = Inr (state_after fea eng K)"
       "\<forall>j. 1 \<le> j \<and> j \<le> K \<longrightarrow> ok_at fea eng j"
       "\<forall>j. 1 \<le> j \<and> j < K \<longrightarrow> \<not> converged eng j"
       "K = max_iter \<or> converged eng K"
    by blast
  let ?s = "state_after fea eng K"
  have c: "completed eng fea ?s (area_at eng K)"
    using K by (intro completed_state_after) auto
  have e: "exit_test (relative_difference ?s) (area_at eng K) \<or> count_iter ?s = 500"
    using K(6) by (auto simp: state_after_sel(1,6) converged_def max_iter_def)
  have u: "count_iter s' \<le> count_iter ?s \<and>
           (exit_test (relative_difference s') area' \<or> count_iter s' = 500 \<longrightarrow> s' = ?s)"
    if "completed eng fea s' area'" for s' area'
  proof -
    from completed_closed[OF that] obtain k where
      k: "1 \<le> k" "k \<le> max_iter" "s' = state_after fea eng k" "area' = area_at eng k"
         "\<forall>j. 1 \<le> j \<and> j < k \<longrightarrow> \<not> converged eng j"
      by blast
    have le: "k \<le> K"
    proof (rule ccontr)
      assume "\<not> k \<le> K"
      then have "K < k" by simp
      with k(5) K(1) have "\<not> converged eng K" by simp
      with K(6) have "K = max_iter" by simp
      with \<open>K < k\<close> k(2) show False by simp
    qed
    have eq: "k = K" if "converged eng k \<or> k = 500"
    proof (rule ccontr)
      assume "k \<noteq> K"
      with le have "k < K" by simp
      with K(5) k(1) have "\<not> converged eng k" by simp
      with that have "k = 500" by simp
      with \<open>k < K\<close> K(2) show False by (simp add: max_iter_def)
    qed
    have x: "exit_test (relative_difference s') area' = converged eng k"
      unfolding k(3,4) by (simp add: state_after_sel(6) converged_def)
    have n: "count_iter s' = k" "count_iter ?s = K"
      unfolding k(3) by (simp_all add: state_after_sel(1))
    have "exit_test (relative_difference s') area' \<or> count_iter s' = 500 \<longrightarrow> s' = ?s"
      using eq x n(1) k(3) by blast
    with le n show ?thesis by simp
  qed
  then have all: "\<forall>s' area'. completed eng fea s' area' \<longrightarrow>
              count_iter s' \<le> count_iter ?s \<and>
              (exit_test (relative_difference s') area' \<or> count_iter s' = 500 \<longrightarrow> s' = ?s)"
    by blast
  have cnt: "1 \<le> count_iter ?s \<and> count_iter ?s \<le> 500"
    using K(1,2) by (simp add: state_after_sel(1) max_iter_def)
  show ?thesis
    using K(3) c cnt e all by blast
qed

text \<open>The steady run stops through the exit test at iteration 6.\<close>

theorem C2_termination_witness:
  "wf_engines sample_fea steady_engines \<and>
   (\<exists>s area. main sample_fea steady_engines = Inr s \<and>
      completed steady_engines sample_fea s area \<and> count_iter s = 6 \<and>
      exit_test (relative_difference s) area)"
proof -
  from C2_termination[OF wf_sample(1)] obtain s area where
    s: "main sample_fea steady_engines = Inr s" "completed steady_engines sample_fea s area"
       "exit_test (relative_difference s) area \<or> count_iter s = 500"
    by blast
  from s(1) have eq: "s = state_after sample_fea steady_engines 6"
    by (simp add: main_steady)
  then have "count_iter s = 6" by (simp add: state_after_sel(1))
  with s wf_sample(1) show ?thesis by auto
qed

subsection \<open>The reinitialisation scheduler\<close>

text \<open>
  C3. Replayed on any sequence of reported booleans, from any counter value, the
  scheduler calls the explicit reinitialisation in exactly those iterations in which the
  advection reported none and the counter, as the iterations before left it, is 1. On
  the sequence false, false, true, false from the counter 0 the calls come in the
  iterations 2 and 4 and in no other. (By \<open>reinitialise_calls_replay\<close> the calls of a run
  of the loop are this replay of the engines' booleans.)
\<close>

theorem C3_reinitialisation_schedule:
  "length (replay n bs) = length bs \<and>
   (\<forall>i < length bs. replay n bs ! i = (\<not> bs ! i \<and> counter_after n (take i bs) = 1)) \<and>
   replay 0 [False, False, True, False] = [False, True, False, True]"
proof -
  have forced: "replay n bs ! i = (\<not> bs ! i \<and> counter_after n (take i bs) = 1)"
    if "i < length bs" for i
    using that
  proof (induction bs arbitrary: n i)
    case Nil
    then show ?case by simp
  next
    case (Cons b bs)
    show ?case
    proof (cases i)
      case 0
      then show ?thesis by (simp add: reinit_schedule_fst)
    next
      case (Suc j)
      with Cons.prems have "j < length bs" by simp
      from Cons.IH[OF this] Suc show ?thesis by simp
    qed
  qed
  have script: "replay 0 [False, False, True, False] = [False, True, False, True]"
    by (simp add: reinit_schedule_def)
  show ?thesis
    using forced script by (simp add: replay_length)
qed

text \<open>Iteration 2 of the scripted sequence: nothing reported, counter 1, call made.\<close>

theorem C3_reinitialisation_schedule_witness:
  "(1::nat) < length [False, False, True, False] \<and>
   replay 0 [False, False, True, False] ! 1 \<and>
   \<not> [False, False, True, False] ! 1 \<and>
   counter_after 0 (take 1 [False, False, True, False]) = 1"
  using C3_reinitialisation_schedule[of 0 "[False, False, True, False]"]
  by (simp add: reinit_schedule_def)

subsection \<open>What an iteration hands to the engines\<close>

text \<open>
  C4. In every completed iteration the solver is given one area fraction per analysis
  element, equal to \<open>max f 1e-6\<close> for the raw fraction \<open>f\<close> the level-set engine computed for
  that element in this iteration; so none is below \<open>1e-6\<close>.
\<close>

theorem C4_area_fraction_clamp:
  assumes "completed eng fea s area"
  shows "length (call_solver_fractions (last (calls s))) = length fea \<and>
         (\<forall>i < length fea.
            call_solver_fractions (last (calls s)) ! i =
              max (lsm_areas (eng (count_iter s)) ! i) 0.000001 \<and>
            0.000001 \<le> call_solver_fractions (last (calls s)) ! i)"
proof -
  from completed_closed[OF assms] obtain k where
    k: "1 \<le> k" "s = state_after fea eng k" "ok_at fea eng k" by blast
  have len: "length fea \<le> length (lsm_areas (eng k))"
    using k(3) by (rule ok_at_lsm)
  have fr: "call_solver_fractions (last (calls s)) =
      map (\<lambda>f. max f 0.000001) (take (length fea) (lsm_areas (eng k)))"
    unfolding k(2) using k(1)
    by (simp add: last_calls_state_after calls_at_def fractions_at_def)
  show ?thesis
    unfolding fr using len by (simp add: k(2) state_after_sel(1))
qed

text \<open>The first iteration of the steady run: the raw fractions 0 and 1/2 reach the solver
  as 1e-6 and 1/2.\<close>

theorem C4_area_fraction_clamp_witness:
  "completed steady_engines sample_fea (state_after sample_fea steady_engines 1)
     (area_at steady_engines 1) \<and>
   lsm_areas (steady_engines 1) = [0, 1 / 2] \<and>
   call_solver_fractions (last (calls (state_after sample_fea steady_engines 1))) =
     [0.000001, 1 / 2]"
proof -
  let ?s = "state_after sample_fea steady_engines 1"
  have c: "completed steady_engines sample_fea ?s (area_at steady_engines 1)"
    by (rule completed_steady) simp_all
  from C4_area_fraction_clamp[OF c]
  have l: "length (call_solver_fractions (last (calls ?s))) = 2"
    and n: "\<forall>i < 2. call_solver_fractions (last (calls ?s)) ! i =
              max (lsm_areas (steady_engines 1) ! i) 0.000001"
    by (simp_all add: sample_fea_def state_after_sel(1))
  have a: "lsm_areas (steady_engines 1) = [0, 1 / 2]"
    by (simp add: steady_engines_def sample_out_def)
  from n have "call_solver_fractions (last (calls ?s)) ! 0 = 0.000001"
    "call_solver_fractions (last (calls ?s)) ! 1 = 1 / 2"
    unfolding a by simp_all
  with l have "call_solver_fractions (last (calls ?s)) = [0.000001, 1 / 2]"
    by (auto simp: list_eq_iff_nth_eq less_Suc_eq numeral_2_eq_2)
  with c a show ?thesis by blast
qed

text \<open>
  C5, as amended. In every completed iteration the vector \<open>constraint_distances\<close> holds the
  one value \<open>max_area * mesh_area - boundary.area\<close>, with the structural area of this same
  iteration. The optimiser is not handed that vector: it is configured with the structural
  area of this iteration, the mesh area and the maximum area fraction.
\<close>

theorem C5_constraint_distance:
  assumes "completed eng fea s area"
  shows "call_constraint_distances (last (calls s)) =
           [max_area * mesh_area - boundary_area (eng (count_iter s))] \<and>
         opt_boundary_area (call_optimise (last (calls s))) = boundary_area (eng (count_iter s)) \<and>
         opt_mesh_area (call_optimise (last (calls s))) = mesh_area \<and>
         opt_max_area (call_optimise (last (calls s))) = max_area"
proof -
  from completed_closed[OF assms] obtain k where
    k: "1 \<le> k" "s = state_after fea eng k" by blast
  show ?thesis
    unfolding k(2) using k(1)
    by (simp add: last_calls_state_after calls_at_def state_after_sel(1) mult.commute)
qed

text \<open>The first iteration of the scripted run: area 3000 of 6400, distance
  \<open>0.4 * 6400 - 3000\<close>.\<close>

theorem C5_constraint_distance_witness:
  "completed scripted_engines sample_fea (state_after sample_fea scripted_engines 1)
     (area_at scripted_engines 1) \<and>
   call_constraint_distances (last (calls (state_after sample_fea scripted_engines 1))) =
     [- 440] \<and>
   opt_boundary_area (call_optimise (last (calls (state_after sample_fea scripted_engines 1))))
     = 3000"
proof -
  let ?s = "state_after sample_fea scripted_engines 1"
  have c: "completed scripted_engines sample_fea ?s (area_at scripted_engines 1)"
    by (rule completed_scripted) simp_all
  show ?thesis
    using c C5_constraint_distance[OF c]
    by (simp add: state_after_sel(1) scripted_engines_def sample_out_def
          mesh_area_def lsm_width_def lsm_height_def num_elem_x_def num_elem_y_def max_area_def)
qed

text \<open>
  C5 as stated has the constraint distance passed to the optimiser. In the first iteration
  of the scripted run the distance is -440, and -440 is not among the numbers the
  optimiser is handed.
\<close>

theorem C5_counterexample:
  "\<not> isl (main sample_fea scripted_engines) \<and>
   call_constraint_distances (calls (projr (main sample_fea scripted_engines)) ! 0) = [- 440] \<and>
   - 440 \<notin> set (optimise_reals (call_optimise (calls (projr (main sample_fea scripted_engines)) ! 0)))"
proof -
  from main_scripted obtain K where
    K: "1 \<le> K" "main sample_fea scripted_engines = Inr (state_after sample_fea scripted_engines K)"
    by blast
  have c: "calls (state_after sample_fea scripted_engines K) ! 0 = calls_at sample_fea scripted_engines 1"
    using nth_calls_state_after[of 1 K sample_fea scripted_engines] K(1) by simp
  show ?thesis
    unfolding K(2) sum.sel c
    by (simp add: calls_at_def optimise_reals_def points_sample
          scripted_engines_def sample_out_def move_limit_def reduced_move_limit_def
          mesh_area_def lsm_width_def lsm_height_def num_elem_x_def num_elem_y_def max_area_def)
qed

text \<open>
  C6. In every completed iteration the boundary points handed on by the sensitivity mapper
  are the points of the discretisation, one for one and at the same coordinates; the
  first sensitivity of each is the negated value the sensitivity engine interpolates at
  the point's coordinate, the second is -1; and the engine's buffer of boundary
  sensitivities is empty afterwards. This is for a sensitivity engine that behaves as the
  specification says, see \<open>ComputeBoundarySensitivities\<close>, with \<open>interpolate\<close> the
  interpolation it performs in this iteration.
\<close>

theorem C6_sensitivity_mapper:
  assumes "completed eng fea s area"
    and "compute_boundary_sensitivities (eng (count_iter s)) =
           ComputeBoundarySensitivities interpolate"
  shows "length (opt_points (call_optimise (last (calls s)))) =
           length (discretise (eng (count_iter s)) (call_discretise (last (calls s)))) \<and>
         (\<forall>i < length (discretise (eng (count_iter s)) (call_discretise (last (calls s)))).
            coord (opt_points (call_optimise (last (calls s))) ! i) =
              coord (discretise (eng (count_iter s)) (call_discretise (last (calls s))) ! i) \<and>
            sensitivities (opt_points (call_optimise (last (calls s))) ! i) ! 0 =
              - interpolate
                  (coord (discretise (eng (count_iter s)) (call_discretise (last (calls s))) ! i))
                  least_sq_radius sens_type p_norm \<and>
            sensitivities (opt_points (call_optimise (last (calls s))) ! i) ! 1 = - 1) \<and>
         boundary_sensitivities s = []"
proof -
  from completed_closed[OF assms(1)] obtain k where
    k: "1 \<le> k" "s = state_after fea eng k" "ok_at fea eng k" by blast
  let ?pts = "discretise (eng k) (length (lambdas_at eng (k - 1)))"
  have n: "count_iter s = k" "boundary_sensitivities s = []"
    unfolding k(2) by (simp_all add: state_after_sel)
  have e: "compute_boundary_sensitivities (eng k) = ComputeBoundarySensitivities interpolate"
    using assms(2) n(1) by simp
  from k(3) obtain r where r: "assign_sensitivities (eng k) 0 ?pts [] = Inr r"
    by (auto simp: ok_at_def)
  have all: "\<forall>p \<in> set ?pts. 1 < length (sensitivities p)"
    using r assign_sensitivities_eq[OF e, of "[]" 0 ?pts] by (simp split: if_splits)
  then have m: "assign_sensitivities (eng k) 0 ?pts [] =
      Inr (map (with_sens interpolate) ?pts,
           map (\<lambda>p. interpolate (coord p) least_sq_radius sens_type p_norm) ?pts)"
    using assign_sensitivities_eq[OF e, of "[]" 0 ?pts] by simp
  have d: "call_discretise (last (calls s)) = length (lambdas_at eng (k - 1))"
    unfolding k(2) using k(1) by (simp add: last_calls_state_after calls_at_def)
  have pa: "points_at eng k = map (with_sens interpolate) ?pts"
    unfolding points_at_def m by simp
  have p: "opt_points (call_optimise (last (calls s))) = map (with_sens interpolate) ?pts"
    unfolding k(2) using k(1) by (simp add: last_calls_state_after calls_at_def pa)
  have "coord (with_sens interpolate (?pts ! i)) = coord (?pts ! i) \<and>
        sensitivities (with_sens interpolate (?pts ! i)) ! 0 =
          - interpolate (coord (?pts ! i)) least_sq_radius sens_type p_norm \<and>
        sensitivities (with_sens interpolate (?pts ! i)) ! 1 = - 1"
    if "i < length ?pts" for i
  proof -
    from all that have l1: "1 < length (sensitivities (?pts ! i))"
      by simp
    then have "0 < length (sensitivities (?pts ! i))"
      by (cases "sensitivities (?pts ! i)") simp_all
    with l1 show ?thesis
      by (simp add: with_sens_def)
  qed
  then show ?thesis
    unfolding d p n by simp
qed

text \<open>The first iteration of the steady run: one point, and an engine that interpolates
  the value 3 everywhere.\<close>

theorem C6_sensitivity_mapper_witness:
  "completed steady_engines sample_fea (state_after sample_fea steady_engines 1)
     (area_at steady_engines 1) \<and>
   compute_boundary_sensitivities
       (steady_engines (count_iter (state_after sample_fea steady_engines 1))) =
     ComputeBoundarySensitivities (\<lambda>pt radius ty p. 3) \<and>
   discretise (steady_engines 1)
     (call_discretise (last (calls (state_after sample_fea steady_engines 1)))) =
     [\<lparr> coord = (40, 100), sensitivities = [0, 0] \<rparr>] \<and>
   sensitivities
     (opt_points (call_optimise (last (calls (state_after sample_fea steady_engines 1)))) ! 0) ! 0
     = - 3 \<and>
   sensitivities
     (opt_points (call_optimise (last (calls (state_after sample_fea steady_engines 1)))) ! 0) ! 1
     = - 1"
proof -
  let ?s = "state_after sample_fea steady_engines 1"
  have c: "completed steady_engines sample_fea ?s (area_at steady_engines 1)"
    by (rule completed_steady) simp_all
  have f: "compute_boundary_sensitivities (steady_engines (count_iter ?s)) =
      ComputeBoundarySensitivities (\<lambda>pt radius ty p. 3)"
    by (simp add: steady_engines_def sample_out_def ComputeBoundarySensitivities_def fun_eq_iff)
  have d: "call_discretise (last (calls ?s)) = 2"
    by (simp add: last_calls_state_after calls_at_def lambdas_sample)
  show ?thesis
    using c f C6_sensitivity_mapper[OF c f]
    unfolding d state_after_sel(1) discretise_sample by simp
qed

text \<open>
  C7, as amended. In every completed iteration the boundary discretisation is called with
  the current size of the vector \<open>lambdas\<close>: 2 in the first iteration, and afterwards the
  number of multipliers the optimiser returned in the iteration before.
\<close>

theorem C7_discretise_argument:
  assumes "completed eng fea s area"
  shows "call_discretise (last (calls s)) =
           (if count_iter s = 1 then 2 else length (new_lambdas (eng (count_iter s - 1))))"
proof -
  from completed_closed[OF assms] obtain k where
    k: "1 \<le> k" "s = state_after fea eng k" by blast
  show ?thesis
    unfolding k(2) using k(1)
    by (auto simp: last_calls_state_after calls_at_def state_after_sel(1) lambdas_at_def)
qed

text \<open>The second iteration of the steady run, whose optimiser returns two multipliers.\<close>

theorem C7_discretise_argument_witness:
  "completed steady_engines sample_fea (state_after sample_fea steady_engines 2)
     (area_at steady_engines 2) \<and>
   count_iter (state_after sample_fea steady_engines 2) = 2 \<and>
   new_lambdas (steady_engines 1) = [0, 0] \<and>
   call_discretise (last (calls (state_after sample_fea steady_engines 2))) = 2"
proof -
  let ?s = "state_after sample_fea steady_engines 2"
  have c: "completed steady_engines sample_fea ?s (area_at steady_engines 2)"
    by (rule completed_steady) simp_all
  show ?thesis
    using c C7_discretise_argument[OF c]
    by (simp add: state_after_sel(1) steady_engines_def sample_out_def)
qed

text \<open>
  C7 as stated has the discretisation called with the argument 1. In the first iteration
  of the steady run the argument is not 1.
\<close>

theorem C7_counterexample:
  "\<not> isl (main sample_fea steady_engines) \<and>
   call_discretise (calls (projr (main sample_fea steady_engines)) ! 0) \<noteq> 1"
proof -
  have c: "calls (state_after sample_fea steady_engines 6) ! 0 = calls_at sample_fea steady_engines 1"
    using nth_calls_state_after[of 1 6 sample_fea steady_engines] by simp
  show ?thesis
    unfolding main_steady sum.sel c by (simp add: calls_at_def lambdas_at_def)
qed

subsection \<open>The history file and the first five iterations\<close>

text \<open>
  C8. After the run the history file holds the header line and then exactly one record per
  completed iteration. The record at position \<open>k\<close> carries the iteration number \<open>k\<close>, the
  objective, the maximum stress, the area fraction and the relative difference as they
  stand at the end of iteration \<open>k\<close>, and the file at the end of iteration \<open>k\<close> is the
  final file cut after that record: each iteration appends its one record.
\<close>

theorem C8_history_log:
  assumes "wf_engines fea eng"
  shows "\<exists>s. main fea eng = Inr s \<and>
           length (txt_file s) = Suc (count_iter s) \<and>
           txt_file s ! 0 = Header \<and>
           (\<forall>k. 1 \<le> k \<and> k \<le> count_iter s \<longrightarrow>
              (\<exists>s' area'. completed eng fea s' area' \<and> count_iter s' = k \<and>
                 area' = boundary_area (eng k) / mesh_area \<and>
                 txt_file s' = take (Suc k) (txt_file s) \<and>
                 txt_file s ! k =
                   Row k (objective (eng k)) (von_mises_max (eng k)) area'
                       (relative_difference s')))"
proof -
  from main_result[OF assms] obtain K where
    K: "1 \<le> K" "K \<le> max_iter" "main fea eng = Inr (state_after fea eng K)"
       "\<forall>j. 1 \<le> j \<and> j \<le> K \<longrightarrow> ok_at fea eng j"
       "\<forall>j. 1 \<le> j \<and> j < K \<longrightarrow> \<not> converged eng j"
    by blast
  let ?s = "state_after fea eng K"
  have a: "length (txt_file ?s) = Suc (count_iter ?s)" "txt_file ?s ! 0 = Header"
    by (simp_all add: state_after_sel del: upt_Suc)
  have b: "\<exists>s' area'. completed eng fea s' area' \<and> count_iter s' = k \<and>
                 area' = boundary_area (eng k) / mesh_area \<and>
                 txt_file s' = take (Suc k) (txt_file ?s) \<and>
                 txt_file ?s ! k =
                   Row k (objective (eng k)) (von_mises_max (eng k)) area'
                       (relative_difference s')"
    if "1 \<le> k" "k \<le> count_iter ?s" for k
  proof -
    have kK: "k \<le> K" using that(2) by (simp add: state_after_sel(1))
    have c: "completed eng fea (state_after fea eng k) (area_at eng k)"
      using that(1) kK K(2,4,5) by (intro completed_state_after) auto
    have r: "txt_file ?s ! k =
        Row k (objective (eng k)) (von_mises_max (eng k)) (area_at eng k)
          (relative_difference (state_after fea eng k))"
      using nth_txt_file_state_after[OF that(1) kK, of fea eng]
      by (simp add: history_row_def state_after_sel(6))
    show ?thesis
      using c r take_txt_file_state_after[OF kK, of fea eng]
      by (intro exI[of _ "state_after fea eng k"] exI[of _ "area_at eng k"])
         (simp add: state_after_sel(1) area_at_def)
  qed
  show ?thesis
    using K(3) a b by (intro exI[of _ ?s]) blast
qed

text \<open>The steady run: six records, numbered 1 to 6, the last with the relative
  difference 0.\<close>

theorem C8_history_log_witness:
  "wf_engines sample_fea steady_engines \<and>
   (\<exists>s. main sample_fea steady_engines = Inr s \<and> count_iter s = 6 \<and>
      length (txt_file s) = 7 \<and>
      map row_iter (tl (txt_file s)) = [1, 2, 3, 4, 5, 6] \<and>
      txt_file s ! 6 = Row 6 2 1 (2 / 5) 0)"
proof -
  from C8_history_log[OF wf_sample(1)] obtain s where
    s: "main sample_fea steady_engines = Inr s" "length (txt_file s) = Suc (count_iter s)"
    by blast
  from s(1) have eq: "s = state_after sample_fea steady_engines 6"
    by (simp add: main_steady)
  have n: "count_iter s = 6" unfolding eq by (simp add: state_after_sel(1))
  have m: "metric steady_engines 6 = 0"
    by (simp add: metric_def relative_change_def steady_engines_def)
  have "txt_file s ! 6 = Row 6 2 1 (2 / 5) 0"
    unfolding eq
    by (simp add: nth_txt_file_state_after history_row_def m area_at_def steady_engines_def
          sample_out_def mesh_area_def lsm_width_def lsm_height_def num_elem_x_def num_elem_y_def)
  moreover have "map row_iter (tl (txt_file s)) = [1, 2, 3, 4, 5, 6]"
    unfolding eq by (simp add: state_after_sel history_row_def upt_rec comp_def)
  ultimately show ?thesis
    using s n wf_sample(1) by auto
qed

text \<open>
  C9. The run makes more than five iterations: at the end of every completed iteration up
  to the fifth the relative-difference variable still has its initial value 1, and with
  that value the exit test of line 465 fails whatever the area fraction is.
\<close>

theorem C9_no_early_exit:
  assumes "wf_engines fea eng"
  shows "\<exists>s. main fea eng = Inr s \<and> 5 < count_iter s \<and>
           (\<forall>s' area'. completed eng fea s' area' \<and> count_iter s' \<le> 5 \<longrightarrow>
              relative_difference s' = 1 \<and>
              (\<forall>a. \<not> exit_test (relative_difference s') a))"
proof -
  from main_result[OF assms] obtain K where
    K: "1 \<le> K" "main fea eng = Inr (state_after fea eng K)"
       "K = max_iter \<or> converged eng K"
    by blast
  have "\<not> K \<le> 5"
    using K(3) not_converged_early[of K eng] by (auto simp: max_iter_def)
  then have "5 < K" by simp
  then have a: "5 < count_iter (state_after fea eng K)"
    by (simp add: state_after_sel(1))
  have b: "relative_difference s' = 1 \<and> (\<forall>a. \<not> exit_test (relative_difference s') a)"
    if "completed eng fea s' area'" "count_iter s' \<le> 5" for s' area'
  proof -
    from completed_closed[OF that(1)] obtain k where
      k: "s' = state_after fea eng k" by blast
    with that(2) have "k \<le> 5" by (simp add: state_after_sel(1))
    then show ?thesis
      unfolding k by (simp add: state_after_sel(6) metric_def exit_test_def)
  qed
  show ?thesis
    using K(2) a b by (intro exI[of _ "state_after fea eng K"]) blast
qed

text \<open>The fifth iteration of the steady run has the allowed area fraction and a constant
  objective, and the run goes on.\<close>

theorem C9_no_early_exit_witness:
  "wf_engines sample_fea steady_engines \<and>
   completed steady_engines sample_fea (state_after sample_fea steady_engines 5)
     (area_at steady_engines 5) \<and>
   count_iter (state_after sample_fea steady_engines 5) \<le> 5 \<and>
   relative_difference (state_after sample_fea steady_engines 5) = 1 \<and>
   \<not> exit_test (relative_difference (state_after sample_fea steady_engines 5))
       (area_at steady_engines 5) \<and>
   (\<exists>s. main sample_fea steady_engines = Inr s \<and> 5 < count_iter s)"
proof -
  let ?s = "state_after sample_fea steady_engines 5"
  have c: "completed steady_engines sample_fea ?s (area_at steady_engines 5)"
    by (rule completed_steady) simp_all
  have n: "count_iter ?s \<le> 5" by (simp add: state_after_sel(1))
  from C9_no_early_exit[OF wf_sample(1)] obtain s where
    s: "main sample_fea steady_engines = Inr s" "5 < count_iter s"
       "\<forall>s' area'. completed steady_engines sample_fea s' area' \<and> count_iter s' \<le> 5 \<longrightarrow>
              relative_difference s' = 1 \<and>
              (\<forall>a. \<not> exit_test (relative_difference s') a)"
    by blast
  from s(3) c n have "relative_difference ?s = 1 \<and>
      \<not> exit_test (relative_difference ?s) (area_at steady_engines 5)"
    by blast
  with c n s(1,2) wf_sample(1) show ?thesis by blast
qed

subsection \<open>The reinitialisation counter in the loop\<close>

text \<open>
  C10. At the end of every completed iteration the counter \<open>num_reinit\<close> is 1, and from
  the second iteration on the explicit reinitialisation is called in every iteration whose
  advection step reports none (and in no other).
\<close>

theorem C10_counter:
  assumes "completed eng fea s area"
  shows "num_reinit s = 1 \<and>
         (2 \<le> count_iter s \<longrightarrow>
            call_reinitialise (last (calls s)) = (\<not> is_reinitialised (eng (count_iter s))))"
proof -
  from completed_closed[OF assms] obtain k where
    k: "1 \<le> k" "s = state_after fea eng k" by blast
  show ?thesis
    unfolding k(2) using k(1)
    by (simp add: state_after_sel(1,2) last_calls_state_after calls_at_def)
qed

text \<open>The second iteration of the scripted run.\<close>

theorem C10_counter_witness:
  "completed scripted_engines sample_fea (state_after sample_fea scripted_engines 2)
     (area_at scripted_engines 2) \<and>
   num_reinit (state_after sample_fea scripted_engines 2) = 1 \<and>
   2 \<le> count_iter (state_after sample_fea scripted_engines 2) \<and>
   \<not> is_reinitialised (scripted_engines 2) \<and>
   call_reinitialise (last (calls (state_after sample_fea scripted_engines 2)))"
proof -
  have c: "completed scripted_engines sample_fea (state_after sample_fea scripted_engines 2)
     (area_at scripted_engines 2)"
    by (rule completed_scripted) simp_all
  show ?thesis
    using c C10_counter[OF c]
    by (simp add: state_after_sel(1) scripted_engines_def sample_out_def)
qed

end
